theory Spec2Isabelle
  imports Complex_Main
begin

section \<open>Python values used by Fib.py\<close>

text \<open>
  Python floats are modelled as exact reals, extended by the two infinities that
  \<^verbatim>\<open>generate_fibonacci_points\<close> writes down itself (\<^verbatim>\<open>float('inf')\<close>,
  \<^verbatim>\<open>float('-inf')\<close>) and by the not-a-number that their arithmetic can produce.
  Rounding and signed zeros are not modelled. Of overflow, the one that raises is
  modelled (\<^verbatim>\<open>math.pow\<close>, below); products and quotients that would silently
  become infinite are not. The four parameters of the generator are finite numbers:
  \<open>num_points\<close> an \<open>int\<close>, the others \<open>real\<close>.
\<close>

datatype py_error = ZeroDivisionError | ValueError | OverflowError

datatype pyfloat = Fin real | PInf | NInf | NaN

fun py_lt :: "pyfloat \<Rightarrow> pyfloat \<Rightarrow> bool" where
  "py_lt (Fin a) (Fin b) = (a < b)"
| "py_lt NaN _ = False"
| "py_lt _ NaN = False"
| "py_lt _ NInf = False"
| "py_lt NInf _ = True"
| "py_lt PInf _ = False"
| "py_lt _ PInf = True"

text \<open>\<^verbatim>\<open>min(a, b)\<close> and \<^verbatim>\<open>max(a, b)\<close> keep the first argument unless the second
  is strictly smaller (strictly greater).\<close>

definition py_min :: "pyfloat \<Rightarrow> pyfloat \<Rightarrow> pyfloat" where
  "py_min a b = (if py_lt b a then b else a)"

definition py_max :: "pyfloat \<Rightarrow> pyfloat \<Rightarrow> pyfloat" where
  "py_max a b = (if py_lt a b then b else a)"

fun py_sub :: "pyfloat \<Rightarrow> pyfloat \<Rightarrow> pyfloat" where
  "py_sub (Fin a) (Fin b) = Fin (a - b)"
| "py_sub NaN _ = NaN"
| "py_sub _ NaN = NaN"
| "py_sub PInf PInf = NaN"
| "py_sub NInf NInf = NaN"
| "py_sub PInf _ = PInf"
| "py_sub NInf _ = NInf"
| "py_sub _ PInf = NInf"
| "py_sub _ NInf = PInf"

fun py_neg :: "pyfloat \<Rightarrow> pyfloat" where
  "py_neg (Fin a) = Fin (- a)"
| "py_neg PInf = NInf"
| "py_neg NInf = PInf"
| "py_neg NaN = NaN"

fun py_abs :: "pyfloat \<Rightarrow> pyfloat" where
  "py_abs (Fin a) = Fin \<bar>a\<bar>"
| "py_abs PInf = PInf"
| "py_abs NInf = PInf"
| "py_abs NaN = NaN"

fun py_mul :: "pyfloat \<Rightarrow> pyfloat \<Rightarrow> pyfloat" where
  "py_mul (Fin a) (Fin b) = Fin (a * b)"
| "py_mul NaN _ = NaN"
| "py_mul _ NaN = NaN"
| "py_mul (Fin a) b = (if a = 0 then NaN else if 0 < a then b else py_neg b)"
| "py_mul a (Fin b) = (if b = 0 then NaN else if 0 < b then a else py_neg a)"
| "py_mul PInf b = b"
| "py_mul NInf b = py_neg b"

text \<open>True division of floats raises on a zero divisor and on nothing else.\<close>

fun py_truediv :: "pyfloat \<Rightarrow> pyfloat \<Rightarrow> py_error + pyfloat" where
  "py_truediv a (Fin b) =
     (if b = 0 then Inl ZeroDivisionError
      else case a of
             Fin a' \<Rightarrow> Inr (Fin (a' / b))
           | NaN \<Rightarrow> Inr NaN
           | _ \<Rightarrow> Inr (if 0 < b then a else py_neg a))"
| "py_truediv (Fin a) PInf = Inr (Fin 0)"
| "py_truediv (Fin a) NInf = Inr (Fin 0)"
| "py_truediv _ _ = Inr NaN"

text \<open>\<^verbatim>\<open>range(n)\<close> is empty for \<open>n \<le> 0\<close>.\<close>

definition py_range :: "int \<Rightarrow> int list" where
  "py_range n = [0..n - 1]"

text \<open>The largest finite float, \<^verbatim>\<open>sys.float_info.max\<close>.\<close>

definition float_max :: real where
  "float_max = 2 ^ 1024 - 2 ^ 971"

text \<open>
  \<^verbatim>\<open>math.pow(x, y)\<close> for a base \<open>x > 0\<close>, the only kind the script passes (the golden
  ratio): the power, or \<^verbatim>\<open>OverflowError\<close> when the power is beyond the largest float.
  The rounding that decides the case within half a unit of that bound is not modelled.
\<close>

definition math_pow :: "real \<Rightarrow> real \<Rightarrow> py_error + real" where
  "math_pow x y = (if float_max < x powr y then Inl OverflowError else Inr (x powr y))"

section \<open>Points\<close>

text \<open>
  A point is built by the script's own class \<^verbatim>\<open>Point3D\<close> when \<^verbatim>\<open>'test'\<close> is in
  \<^verbatim>\<open>sys.argv\<close>, and by the host's \<^verbatim>\<open>adsk.core.Point3D.create\<close> otherwise. The host
  library is not part of the repository: \<open>AdskPoint3D x y z\<close> stands for whatever the
  call \<^verbatim>\<open>adsk.core.Point3D.create(x, y, z)\<close> returns, and records the three arguments of
  that call. The planar coordinates are the product with the scaling factor, a
  \<open>pyfloat\<close>; the vertical one is a sum of finite increments.
\<close>

datatype point =
    Point3D (coord_x: pyfloat) (coord_y: pyfloat) (coord_z: real)
  | AdskPoint3D (coord_x: pyfloat) (coord_y: pyfloat) (coord_z: real)


section \<open>get_bounding_box\<close>

definition get_bounding_box :: "point list \<Rightarrow> pyfloat \<times> pyfloat \<times> pyfloat \<times> pyfloat" where
  "get_bounding_box points =
     (case points of
        [] \<Rightarrow> (Fin 0, Fin 0, Fin 0, Fin 0)
      | p # ps \<Rightarrow>
          (foldl py_min (coord_x p) (map coord_x ps),
           foldl py_max (coord_x p) (map coord_x ps),
           foldl py_min (coord_y p) (map coord_y ps),
           foldl py_max (coord_y p) (map coord_y ps)))"

section \<open>generate_fibonacci_points\<close>

definition phi :: real where
  "phi = (1 + sqrt 5) / 2"

text \<open>The body of the first loop (lines 99 to 110): one unscaled point is appended
  and the four running extremes are updated, unless \<^verbatim>\<open>math.pow\<close> raises at line 101.\<close>

fun scan_step ::
  "real \<Rightarrow> int \<Rightarrow> (real \<times> real) list \<times> pyfloat \<times> pyfloat \<times> pyfloat \<times> pyfloat
     \<Rightarrow> py_error + (real \<times> real) list \<times> pyfloat \<times> pyfloat \<times> pyfloat \<times> pyfloat" where
  "scan_step angle_increment i (unscaled_points, min_x, max_x, min_y, max_y) =
     (let angle = of_int i * angle_increment
      in case math_pow phi (2 * angle / pi) of
           Inl e \<Rightarrow> Inl e
         | Inr radius \<Rightarrow>
             (let x = radius * cos angle;
                  y = radius * sin angle
              in Inr (unscaled_points @ [(x, y)],
                      py_min min_x (Fin x), py_max max_x (Fin x),
                      py_min min_y (Fin y), py_max max_y (Fin y))))"

text \<open>The first loop: it stops at the first iteration that raises.\<close>

fun scan_loop ::
  "real \<Rightarrow> int list \<Rightarrow> (real \<times> real) list \<times> pyfloat \<times> pyfloat \<times> pyfloat \<times> pyfloat
     \<Rightarrow> py_error + (real \<times> real) list \<times> pyfloat \<times> pyfloat \<times> pyfloat \<times> pyfloat" where
  "scan_loop angle_increment [] state = Inr state"
| "scan_loop angle_increment (i # rest) state =
     (case scan_step angle_increment i state of
        Inl e \<Rightarrow> Inl e
      | Inr state' \<Rightarrow> scan_loop angle_increment rest state')"

text \<open>Lines 90 to 110, for \<open>num_points \<noteq> 0\<close>.\<close>

definition scan_spiral ::
  "int \<Rightarrow> real
     \<Rightarrow> py_error + (real \<times> real) list \<times> pyfloat \<times> pyfloat \<times> pyfloat \<times> pyfloat" where
  "scan_spiral num_points turns =
     (let angle_increment = (2 * pi * turns) / of_int num_points
      in scan_loop angle_increment (py_range num_points) ([], PInf, NInf, PInf, NInf))"

text \<open>The body of the second loop (lines 125 to 135).\<close>

fun emit_step ::
  "bool \<Rightarrow> pyfloat \<Rightarrow> real \<Rightarrow> real \<times> real \<Rightarrow> point list \<times> real \<Rightarrow> point list \<times> real" where
  "emit_step test scaling_factor z_increment (x, y) (points, current_z) =
     (let x_scaled = py_mul (Fin x) scaling_factor;
          y_scaled = py_mul (Fin y) scaling_factor
      in (points @ [if test then Point3D x_scaled y_scaled current_z
                    else AdskPoint3D x_scaled y_scaled current_z],
          current_z + z_increment))"

text \<open>
  The generator. \<open>argv\<close> is \<^verbatim>\<open>sys.argv\<close>, which the function reads at line 129.
  Line 90 divides by \<open>num_points\<close> and line 118 by \<open>max_dimension\<close>; both raise on zero.
  Nothing in the function catches an error.
\<close>

definition generate_fibonacci_points ::
  "string list \<Rightarrow> int \<Rightarrow> real \<Rightarrow> real \<Rightarrow> real \<Rightarrow> py_error + point list" where
  "generate_fibonacci_points argv num_points scale turns height =
     (if num_points = 0 then Inl ZeroDivisionError
      else
        case scan_spiral num_points turns of
          Inl e \<Rightarrow> Inl e
        | Inr (unscaled_points, min_x, max_x, min_y, max_y) \<Rightarrow>
            (let width = py_sub max_x min_x;
                 height_dim = py_sub max_y min_y;
                 max_dimension = py_max width height_dim
             in case py_truediv (Fin scale) max_dimension of
                  Inl e \<Rightarrow> Inl e
                | Inr scaling_factor \<Rightarrow>
                    (let z_increment =
                           (if num_points > 0 then height / of_int num_points else 0);
                         (points, current_z) =
                            fold (emit_step (''test'' \<in> set argv) scaling_factor z_increment)
                              unscaled_points ([], 0)
                     in Inr points)))"

section \<open>test_spiral_dimensions\<close>

definition test_cases :: "(int \<times> real \<times> real \<times> real) list" where
  "test_cases =
     [(100, 100, 1, 0),
      (200, 50, 2, 0),
      (50, 200, 1 / 2, 0),
      (100, 100, 1, 50),
      (50, 100, 1, 25)]"

text \<open>
  What a failing case prints, as data: the first constructor stands for the four
  lines of the dimension failure (scale, turns, height, actual maximum dimension,
  width, height of the box), the second for the four lines of the height failure
  (height, actual height, least and greatest z), the third for the closing line.
\<close>

datatype report =
    Dimension_failed real real real pyfloat pyfloat pyfloat
  | Height_failed real real real real
  | All_passed

text \<open>One iteration of the loop at line 49: \<open>None\<close> when the case passes, the printed
  diagnostic when the function returns \<open>False\<close>. \<^verbatim>\<open>min\<close> of an empty sequence raises.\<close>

fun check_case :: "string list \<Rightarrow> int \<times> real \<times> real \<times> real \<Rightarrow> py_error + report option" where
  "check_case argv (num_points, scale, turns, height) =
     (case generate_fibonacci_points argv num_points scale turns height of
        Inl e \<Rightarrow> Inl e
      | Inr points \<Rightarrow>
          (case get_bounding_box points of
             (min_x, max_x, min_y, max_y) \<Rightarrow>
               (let width = py_sub max_x min_x;
                    height_dim = py_sub max_y min_y;
                    max_dimension = py_max width height_dim;
                    tolerance = scale * (1 / 100)
                in if py_lt (Fin tolerance) (py_abs (py_sub max_dimension (Fin scale)))
                   then Inr (Some (Dimension_failed scale turns height max_dimension width height_dim))
                   else if height > 0 then
                     (case points of
                        [] \<Rightarrow> Inl ValueError
                      | p # ps \<Rightarrow>
                          (let min_z = foldl min (coord_z p) (map coord_z ps);
                               max_z = foldl max (coord_z p) (map coord_z ps);
                               actual_height = max_z - min_z
                           in if \<bar>actual_height - height\<bar> > tolerance
                              then Inr (Some (Height_failed height actual_height min_z max_z))
                              else Inr None))
                   else Inr None)))"

fun run_test_cases ::
  "string list \<Rightarrow> (int \<times> real \<times> real \<times> real) list \<Rightarrow> py_error + bool \<times> report list" where
  "run_test_cases argv [] = Inr (True, [All_passed])"
| "run_test_cases argv (c # rest) =
     (case check_case argv c of
        Inl e \<Rightarrow> Inl e
      | Inr (Some r) \<Rightarrow> Inr (False, [r])
      | Inr None \<Rightarrow> run_test_cases argv rest)"

definition test_spiral_dimensions :: "string list \<Rightarrow> py_error + bool \<times> report list" where
  "test_spiral_dimensions argv = run_test_cases argv test_cases"

section \<open>Quantities of the stated properties\<close>

text \<open>The value of \<open>max_dimension\<close> at line 115 of a call with \<open>num_points \<noteq> 0\<close>, when the
  first loop completes.\<close>

definition unscaled_max_dimension :: "int \<Rightarrow> real \<Rightarrow> py_error + pyfloat" where
  "unscaled_max_dimension num_points turns =
     (case scan_spiral num_points turns of
        Inl e \<Rightarrow> Inl e
      | Inr (unscaled_points, min_x, max_x, min_y, max_y) \<Rightarrow>
          Inr (py_max (py_sub max_x min_x) (py_sub max_y min_y)))"

text \<open>The larger side of the planar bounding box, as lines 51 to 55 compute it.\<close>

definition max_dimension_of :: "point list \<Rightarrow> pyfloat" where
  "max_dimension_of points =
     (case get_bounding_box points of
        (min_x, max_x, min_y, max_y) \<Rightarrow> py_max (py_sub max_x min_x) (py_sub max_y min_y))"

text \<open>The vertical extent \<^verbatim>\<open>max(z) - min(z)\<close> of a non-empty sequence.\<close>

definition z_range :: "point list \<Rightarrow> real" where
  "z_range points = Max (set (map coord_z points)) - Min (set (map coord_z points))"

text \<open>\<^verbatim>\<open>a <= b\<close> on floats.\<close>

fun py_le :: "pyfloat \<Rightarrow> pyfloat \<Rightarrow> bool" where
  "py_le (Fin a) (Fin b) = (a \<le> b)"
| "py_le NaN _ = False"
| "py_le _ NaN = False"
| "py_le NInf _ = True"
| "py_le _ PInf = True"
| "py_le _ _ = False"

text \<open>
  What it means for one row of the table to be within tolerance: the generator returns,
  the larger bounding-box side differs from \<open>scale\<close> by at most one percent of
  \<open>scale\<close>, and for \<open>height > 0\<close> the vertical extent differs from \<open>height\<close> by at
  most one percent of \<open>scale\<close>. This is the statement to be compared with
  \<open>check_case\<close>, not a translation of it.
\<close>

definition case_within_tolerance :: "string list \<Rightarrow> int \<times> real \<times> real \<times> real \<Rightarrow> bool" where
  "case_within_tolerance argv c =
     (case c of (num_points, scale, turns, height) \<Rightarrow>
        (case generate_fibonacci_points argv num_points scale turns height of
           Inl e \<Rightarrow> False
         | Inr points \<Rightarrow>
             py_le (py_abs (py_sub (max_dimension_of points) (Fin scale))) (Fin (scale * (1 / 100))) \<and>
             (height > 0 \<longrightarrow>
                points \<noteq> [] \<and> \<bar>z_range points - height\<bar> \<le> scale * (1 / 100))))"

section \<open>Closed forms of the two loops\<close>

text \<open>
  The functions of this section are not part of the script: they name what its loops
  compute, and the lemmas below prove that they do.
\<close>

text \<open>An iteration of the first loop in which \<^verbatim>\<open>math.pow\<close> returns.\<close>

fun scan_step_ok ::
  "real \<Rightarrow> int \<Rightarrow> (real \<times> real) list \<times> pyfloat \<times> pyfloat \<times> pyfloat \<times> pyfloat
     \<Rightarrow> (real \<times> real) list \<times> pyfloat \<times> pyfloat \<times> pyfloat \<times> pyfloat" where
  "scan_step_ok a i (us, lx, hx, ly, hy) =
     (us @ [(phi powr (2 * (of_int i * a) / pi) * cos (of_int i * a),
             phi powr (2 * (of_int i * a) / pi) * sin (of_int i * a))],
      py_min lx (Fin (phi powr (2 * (of_int i * a) / pi) * cos (of_int i * a))),
      py_max hx (Fin (phi powr (2 * (of_int i * a) / pi) * cos (of_int i * a))),
      py_min ly (Fin (phi powr (2 * (of_int i * a) / pi) * sin (of_int i * a))),
      py_max hy (Fin (phi powr (2 * (of_int i * a) / pi) * sin (of_int i * a))))"

definition spiral_x :: "real \<Rightarrow> int \<Rightarrow> real" where
  "spiral_x a i = phi powr (2 * (of_int i * a) / pi) * cos (of_int i * a)"

definition spiral_y :: "real \<Rightarrow> int \<Rightarrow> real" where
  "spiral_y a i = phi powr (2 * (of_int i * a) / pi) * sin (of_int i * a)"

definition angle_inc :: "int \<Rightarrow> real \<Rightarrow> real" where
  "angle_inc n t = (2 * pi * t) / of_int n"

text \<open>Some radius of the call is beyond the largest float.\<close>

definition overflows :: "int \<Rightarrow> real \<Rightarrow> bool" where
  "overflows n t =
     (\<exists>i \<in> set (py_range n). float_max < phi powr (2 * (of_int i * angle_inc n t) / pi))"

definition xs_of :: "int \<Rightarrow> real \<Rightarrow> real list" where
  "xs_of n t = map (spiral_x (angle_inc n t)) (py_range n)"

definition ys_of :: "int \<Rightarrow> real \<Rightarrow> real list" where
  "ys_of n t = map (spiral_y (angle_inc n t)) (py_range n)"

definition unscaled :: "int \<Rightarrow> real \<Rightarrow> (real \<times> real) list" where
  "unscaled n t =
     map (\<lambda>i. (spiral_x (angle_inc n t) i, spiral_y (angle_inc n t) i)) (py_range n)"

definition span :: "real list \<Rightarrow> real" where
  "span vs = Max (set vs) - Min (set vs)"

definition unscaled_extent :: "int \<Rightarrow> real \<Rightarrow> real" where
  "unscaled_extent n t = max (span (xs_of n t)) (span (ys_of n t))"

definition mk_point :: "bool \<Rightarrow> pyfloat \<Rightarrow> pyfloat \<Rightarrow> real \<Rightarrow> point" where
  "mk_point test a b c = (if test then Point3D a b c else AdskPoint3D a b c)"

definition emitted :: "bool \<Rightarrow> real \<Rightarrow> real \<Rightarrow> (real \<times> real) list \<Rightarrow> point list" where
  "emitted test s zi us =
     map (\<lambda>k. mk_point test (Fin (fst (us ! k) * s)) (Fin (snd (us ! k) * s)) (real k * zi))
       [0..<length us]"

section \<open>The loops compute their closed forms\<close>

lemma py_min_Fin: "py_min (Fin a) (Fin b) = Fin (min a b)"
  by (simp add: py_min_def min_def)

lemma py_max_Fin: "py_max (Fin a) (Fin b) = Fin (max a b)"
  by (simp add: py_max_def max_def)

lemma py_min_PInf: "py_min PInf (Fin b) = Fin b"
  by (simp add: py_min_def)

lemma py_max_NInf: "py_max NInf (Fin b) = Fin b"
  by (simp add: py_max_def)

lemma scan_step_cases:
  "scan_step a i state =
     (if float_max < phi powr (2 * (of_int i * a) / pi) then Inl OverflowError
      else Inr (scan_step_ok a i state))"
  by (cases state) (simp add: math_pow_def Let_def)

lemma scan_loop_ok:
  "\<forall>i \<in> set js. \<not> float_max < phi powr (2 * (of_int i * a) / pi) \<Longrightarrow>
     scan_loop a js state = Inr (fold (scan_step_ok a) js state)"
  by (induction js arbitrary: state) (simp_all add: scan_step_cases)

lemma scan_loop_overflow:
  "\<exists>i \<in> set js. float_max < phi powr (2 * (of_int i * a) / pi) \<Longrightarrow>
     scan_loop a js state = Inl OverflowError"
proof (induction js arbitrary: state)
  case Nil
  then show ?case by simp
next
  case (Cons j js)
  show ?case
  proof (cases "float_max < phi powr (2 * (of_int j * a) / pi)")
    case True
    then show ?thesis by (simp add: scan_step_cases)
  next
    case False
    with Cons.prems have "\<exists>i \<in> set js. float_max < phi powr (2 * (of_int i * a) / pi)"
      by auto
    then have "scan_loop a js (scan_step_ok a j state) = Inl OverflowError"
      by (rule Cons.IH)
    with False show ?thesis by (simp add: scan_step_cases)
  qed
qed

lemma scan_fold:
  "fold (scan_step_ok a) js (us, lx, hx, ly, hy) =
     (us @ map (\<lambda>i. (spiral_x a i, spiral_y a i)) js,
      fold (\<lambda>i m. py_min m (Fin (spiral_x a i))) js lx,
      fold (\<lambda>i m. py_max m (Fin (spiral_x a i))) js hx,
      fold (\<lambda>i m. py_min m (Fin (spiral_y a i))) js ly,
      fold (\<lambda>i m. py_max m (Fin (spiral_y a i))) js hy)"
  by (induction js arbitrary: us lx hx ly hy) (simp_all add: spiral_x_def spiral_y_def)

lemma fold_py_min_Fin:
  "fold (\<lambda>i m. py_min m (Fin (f i))) js (Fin v) = Fin (Min (insert v (f ` set js)))"
proof (induction js arbitrary: v)
  case Nil
  show ?case by simp
next
  case (Cons j js)
  have "Min (insert (min v (f j)) (f ` set js)) = Min (insert v (insert (f j) (f ` set js)))"
    by (cases "set js = {}") (simp_all add: min.assoc)
  then show ?case by (simp add: py_min_Fin Cons.IH)
qed

lemma fold_py_max_Fin:
  "fold (\<lambda>i m. py_max m (Fin (f i))) js (Fin v) = Fin (Max (insert v (f ` set js)))"
proof (induction js arbitrary: v)
  case Nil
  show ?case by simp
next
  case (Cons j js)
  have "Max (insert (max v (f j)) (f ` set js)) = Max (insert v (insert (f j) (f ` set js)))"
    by (cases "set js = {}") (simp_all add: max.assoc)
  then show ?case by (simp add: py_max_Fin Cons.IH)
qed

lemma fold_py_min_PInf:
  "js \<noteq> [] \<Longrightarrow> fold (\<lambda>i m. py_min m (Fin (f i))) js PInf = Fin (Min (set (map f js)))"
  by (cases js) (simp_all add: py_min_PInf fold_py_min_Fin)

lemma fold_py_max_NInf:
  "js \<noteq> [] \<Longrightarrow> fold (\<lambda>i m. py_max m (Fin (f i))) js NInf = Fin (Max (set (map f js)))"
  by (cases js) (simp_all add: py_max_NInf fold_py_max_Fin)

lemma py_range_nonempty: "0 < n \<Longrightarrow> py_range n \<noteq> []"
  by (simp add: py_range_def)

lemma py_range_empty: "n \<le> 0 \<Longrightarrow> py_range n = []"
  by (simp add: py_range_def)

lemma length_py_range: "length (py_range n) = nat n"
  by (simp add: py_range_def)

lemma scan_spiral_overflow: "overflows n t \<Longrightarrow> scan_spiral n t = Inl OverflowError"
  unfolding scan_spiral_def Let_def angle_inc_def [symmetric] overflows_def
  by (rule scan_loop_overflow)

lemma not_overflows_nonpos: "n \<le> 0 \<Longrightarrow> \<not> overflows n t"
  by (simp add: overflows_def py_range_empty)

lemma scan_spiral_pos:
  assumes "0 < n" "\<not> overflows n t"
  shows "scan_spiral n t =
           Inr (unscaled n t,
                Fin (Min (set (xs_of n t))), Fin (Max (set (xs_of n t))),
                Fin (Min (set (ys_of n t))), Fin (Max (set (ys_of n t))))"
proof -
  have ne: "py_range n \<noteq> []" using assms(1) by (rule py_range_nonempty)
  have ok: "\<forall>i \<in> set (py_range n).
              \<not> float_max < phi powr (2 * (of_int i * angle_inc n t) / pi)"
    using assms(2) by (simp add: overflows_def)
  show ?thesis
    unfolding scan_spiral_def Let_def angle_inc_def [symmetric] scan_loop_ok [OF ok]
    by (simp add: scan_fold fold_py_min_PInf [OF ne] fold_py_max_NInf [OF ne]
          xs_of_def ys_of_def unscaled_def)
qed

lemma scan_spiral_nonpos: "n \<le> 0 \<Longrightarrow> scan_spiral n t = Inr ([], PInf, NInf, PInf, NInf)"
  by (simp add: scan_spiral_def py_range_empty)

lemma unscaled_max_dimension_pos:
  "0 < n \<Longrightarrow> \<not> overflows n t \<Longrightarrow>
     unscaled_max_dimension n t = Inr (Fin (unscaled_extent n t))"
  by (simp add: unscaled_max_dimension_def scan_spiral_pos unscaled_extent_def span_def py_max_Fin)


lemma span_nonneg: "vs \<noteq> [] \<Longrightarrow> 0 \<le> span vs"
  by (simp add: span_def)

lemma unscaled_extent_nonneg: "0 < n \<Longrightarrow> 0 \<le> unscaled_extent n t"
  by (simp add: unscaled_extent_def xs_of_def le_max_iff_disj span_nonneg py_range_nonempty)

lemma coord_mk_point [simp]:
  "coord_x (mk_point test a b c) = a"
  "coord_y (mk_point test a b c) = b"
  "coord_z (mk_point test a b c) = c"
  by (simp_all add: mk_point_def)

lemma emitted_snoc:
  "emitted test s zi (us @ [(x, y)]) =
     emitted test s zi us @ [mk_point test (Fin (x * s)) (Fin (y * s)) (real (length us) * zi)]"
  by (simp add: emitted_def nth_append)

lemma emit_fold:
  "fold (emit_step test (Fin s) zi) us ([], 0) = (emitted test s zi us, real (length us) * zi)"
proof (induction us rule: rev_induct)
  case Nil
  show ?case by (simp add: emitted_def)
next
  case (snoc u us)
  obtain x y where u: "u = (x, y)" by (cases u)
  show ?case
    by (simp add: snoc.IH u emitted_snoc mk_point_def Let_def algebra_simps)
qed

lemma length_emitted [simp]: "length (emitted test s zi us) = length us"
  by (simp add: emitted_def)

lemma length_unscaled [simp]: "length (unscaled n t) = nat n"
  by (simp add: unscaled_def length_py_range)

lemma generate_zero: "generate_fibonacci_points argv 0 scale t h = Inl ZeroDivisionError"
  by (simp add: generate_fibonacci_points_def)

lemma generate_negative: "n < 0 \<Longrightarrow> generate_fibonacci_points argv n scale t h = Inr []"
  by (simp add: generate_fibonacci_points_def scan_spiral_nonpos py_max_def)

lemma generate_overflow:
  "n \<noteq> 0 \<Longrightarrow> overflows n t \<Longrightarrow>
     generate_fibonacci_points argv n scale t h = Inl OverflowError"
  by (simp add: generate_fibonacci_points_def scan_spiral_overflow)

lemma generate_degenerate:
  "0 < n \<Longrightarrow> \<not> overflows n t \<Longrightarrow> unscaled_extent n t = 0 \<Longrightarrow>
     generate_fibonacci_points argv n scale t h = Inl ZeroDivisionError"
  by (simp add: generate_fibonacci_points_def scan_spiral_pos py_max_Fin
        unscaled_extent_def [symmetric] span_def [symmetric])

lemma generate_regular:
  "0 < n \<Longrightarrow> \<not> overflows n t \<Longrightarrow> unscaled_extent n t \<noteq> 0 \<Longrightarrow>
     generate_fibonacci_points argv n scale t h =
       Inr (emitted (''test'' \<in> set argv) (scale / unscaled_extent n t) (h / of_int n)
              (unscaled n t))"
  by (simp add: generate_fibonacci_points_def scan_spiral_pos py_max_Fin
        unscaled_extent_def [symmetric] span_def [symmetric] emit_fold)

lemma phi_gt_one: "1 < phi"
proof -
  have "1 < sqrt 5" by simp
  then show ?thesis by (simp add: phi_def)
qed


lemma phi_upper: "phi < 2"
proof -
  have "sqrt 5 < 3" by (rule real_less_lsqrt) simp_all
  then show ?thesis by (simp add: phi_def)
qed


lemma phi_powr_bounded:
  assumes "e \<le> 1020"
  shows "phi powr e \<le> float_max"
proof -
  have "phi powr e \<le> phi powr 1020"
    by (rule powr_mono) (use assms phi_gt_one in simp_all)
  also have "\<dots> \<le> 2 powr 1020"
    by (rule powr_mono2) (use phi_gt_one phi_upper in simp_all)
  also have "\<dots> = 2 ^ 1020" by (simp add: powr_numeral)
  also have "\<dots> \<le> 2 ^ 1024 - 2 ^ 971"
  proof -
    have "(2::real) ^ 1020 + 2 ^ 971 \<le> 2 ^ 1020 + 2 ^ 1020"
      by (intro add_left_mono power_increasing) simp_all
    also have "\<dots> = 2 ^ 1021" by simp
    also have "\<dots> \<le> 2 ^ 1024" by (intro power_increasing) simp_all
    finally show ?thesis by simp
  qed
  finally show ?thesis by (simp only: float_max_def)
qed

lemma not_overflows_bounded:
  assumes "\<bar>t\<bar> \<le> 255"
  shows "\<not> overflows n t"
proof -
  have "phi powr (2 * (of_int i * angle_inc n t) / pi) \<le> float_max"
    if i: "i \<in> set (py_range n)" for i
  proof -
    from i have b: "0 \<le> i" "i < n" by (simp_all add: py_range_def)
    define r :: real where "r = of_int i / of_int n"
    have r: "0 \<le> r" "r \<le> 1" using b by (simp_all add: r_def)
    have "2 * (of_int i * angle_inc n t) / pi = 4 * (t * r)"
      by (simp add: angle_inc_def r_def)
    also have "t * r \<le> \<bar>t\<bar> * r" using r(1) by (simp add: mult_right_mono)
    also have "\<bar>t\<bar> * r \<le> \<bar>t\<bar> * 1" using r(2) by (intro mult_left_mono) simp_all
    finally have "2 * (of_int i * angle_inc n t) / pi \<le> 1020" using assms by simp
    then show ?thesis by (rule phi_powr_bounded)
  qed
  then show ?thesis by (auto simp: overflows_def not_less)
qed

lemma not_overflows_one: "\<not> overflows 1 t"
proof -
  have "phi powr 0 \<le> float_max" by (rule phi_powr_bounded) simp
  then show ?thesis by (simp add: overflows_def py_range_def not_less del: powr_zero_eq_one)
qed


lemma spiral_x_0 [simp]: "spiral_x a 0 = 1"
  using phi_gt_one by (simp add: spiral_x_def)

lemma spiral_y_0 [simp]: "spiral_y a 0 = 0"
  by (simp add: spiral_y_def)

lemma spiral_norm:
  "(spiral_x a i)\<^sup>2 + (spiral_y a i)\<^sup>2 = (phi powr (2 * (of_int i * a) / pi))\<^sup>2"
proof -
  define r where "r = phi powr (2 * (of_int i * a) / pi)"
  define c where "c = cos (of_int i * a)"
  define s where "s = sin (of_int i * a)"
  have cs: "c\<^sup>2 + s\<^sup>2 = 1" by (simp add: c_def s_def)
  have "(r * c)\<^sup>2 + (r * s)\<^sup>2 = r\<^sup>2 * (c\<^sup>2 + s\<^sup>2)"
    by (simp only: power_mult_distrib distrib_left)
  also have "\<dots> = r\<^sup>2" by (simp only: cs mult_1_right)
  finally show ?thesis by (simp only: spiral_x_def spiral_y_def r_def c_def s_def)
qed

lemma spiral_1_off_start:
  assumes "a \<noteq> 0"
  shows "spiral_x a 1 \<noteq> 1 \<or> spiral_y a 1 \<noteq> 0"
proof (rule ccontr)
  assume "\<not> ?thesis"
  then have "(spiral_x a 1)\<^sup>2 + (spiral_y a 1)\<^sup>2 = 1" by simp
  then have sq: "(phi powr (2 * a / pi))\<^sup>2 = 1" using spiral_norm [of a 1] by simp
  have "0 \<le> phi powr (2 * a / pi)" by simp
  with sq have "phi powr (2 * a / pi) = 1"
    by (simp add: power2_eq_1_iff)
  then have "2 * a / pi = 0" using phi_gt_one by simp
  with assms show False by simp
qed

lemma span_nonpos_eq:
  assumes "a \<in> set vs" "b \<in> set vs" "span vs \<le> 0"
  shows "a = b"
proof -
  have "Min (set vs) \<le> a" "a \<le> Max (set vs)" "Min (set vs) \<le> b" "b \<le> Max (set vs)"
    using assms(1,2) by simp_all
  with assms(3) show ?thesis by (simp add: span_def)
qed

lemma py_range_has_0_1: "2 \<le> n \<Longrightarrow> 0 \<in> set (py_range n) \<and> 1 \<in> set (py_range n)"
  by (simp add: py_range_def)

lemma unscaled_extent_pos:
  assumes "2 \<le> n" "t \<noteq> 0"
  shows "0 < unscaled_extent n t"
proof (rule ccontr)
  assume "\<not> ?thesis"
  then have sx: "span (xs_of n t) \<le> 0" and sy: "span (ys_of n t) \<le> 0"
    by (simp_all add: unscaled_extent_def)
  have a: "angle_inc n t \<noteq> 0" using assms by (simp add: angle_inc_def)
  have mem: "0 \<in> set (py_range n)" "1 \<in> set (py_range n)"
    using py_range_has_0_1 [OF assms(1)] by simp_all
  have "spiral_x (angle_inc n t) 1 \<in> set (xs_of n t)" "spiral_x (angle_inc n t) 0 \<in> set (xs_of n t)"
    using mem by (simp_all add: xs_of_def del: spiral_x_0)
  from span_nonpos_eq [OF this sx] have x: "spiral_x (angle_inc n t) 1 = 1" by simp
  have "spiral_y (angle_inc n t) 1 \<in> set (ys_of n t)" "spiral_y (angle_inc n t) 0 \<in> set (ys_of n t)"
    using mem by (simp_all add: ys_of_def del: spiral_y_0)
  from span_nonpos_eq [OF this sy] have y: "spiral_y (angle_inc n t) 1 = 0" by simp
  from spiral_1_off_start [OF a] x y show False by simp
qed

lemma unscaled_extent_one: "unscaled_extent 1 t = 0"
  by (simp add: unscaled_extent_def xs_of_def ys_of_def py_range_def span_def)

lemma unscaled_extent_no_turns: "0 < n \<Longrightarrow> unscaled_extent n 0 = 0"
proof -
  assume n: "0 < n"
  have ne: "py_range n \<noteq> []" using n by (rule py_range_nonempty)
  have x: "set (xs_of n 0) = {1}" using ne phi_gt_one
    by (cases "py_range n") (auto simp: xs_of_def angle_inc_def spiral_x_def)
  have y: "set (ys_of n 0) = {0}" using ne
    by (cases "py_range n") (auto simp: ys_of_def angle_inc_def spiral_y_def)
  show ?thesis by (simp add: unscaled_extent_def span_def x y)
qed

lemma foldl_py_min_Fin: "foldl py_min (Fin a) (map Fin vs) = Fin (Min (set (a # vs)))"
proof -
  have "foldl py_min (Fin a) (map Fin vs) = fold (\<lambda>v m. py_min m (Fin v)) vs (Fin a)"
    by (simp add: foldl_conv_fold fold_map comp_def)
  then show ?thesis by (simp add: fold_py_min_Fin)
qed

lemma foldl_py_max_Fin: "foldl py_max (Fin a) (map Fin vs) = Fin (Max (set (a # vs)))"
proof -
  have "foldl py_max (Fin a) (map Fin vs) = fold (\<lambda>v m. py_max m (Fin v)) vs (Fin a)"
    by (simp add: foldl_conv_fold fold_map comp_def)
  then show ?thesis by (simp add: fold_py_max_Fin)
qed

lemma get_bounding_box_Fin:
  assumes "points \<noteq> []" "map coord_x points = map Fin vx" "map coord_y points = map Fin vy"
  shows "get_bounding_box points =
           (Fin (Min (set vx)), Fin (Max (set vx)), Fin (Min (set vy)), Fin (Max (set vy)))"
proof -
  obtain p ps where points: "points = p # ps" using assms(1) by (cases points) auto
  obtain a as where vx: "vx = a # as" "coord_x p = Fin a" "map coord_x ps = map Fin as"
    using assms(2) points by (cases vx) auto
  obtain b bs where vy: "vy = b # bs" "coord_y p = Fin b" "map coord_y ps = map Fin bs"
    using assms(3) points by (cases vy) auto
  show ?thesis
    by (simp add: get_bounding_box_def points vx vy foldl_py_min_Fin foldl_py_max_Fin)
qed

lemma max_dimension_of_Fin:
  assumes "points \<noteq> []" "map coord_x points = map Fin vx" "map coord_y points = map Fin vy"
  shows "max_dimension_of points = Fin (max (span vx) (span vy))"
  by (simp add: max_dimension_of_def get_bounding_box_Fin [OF assms] span_def py_max_Fin)

lemma map_coord_x_emitted:
  "map coord_x (emitted test s zi us) = map Fin (map (\<lambda>v. v * s) (map fst us))"
  by (rule nth_equalityI) (simp_all add: emitted_def)

lemma map_coord_y_emitted:
  "map coord_y (emitted test s zi us) = map Fin (map (\<lambda>v. v * s) (map snd us))"
  by (rule nth_equalityI) (simp_all add: emitted_def)

lemma map_coord_z_emitted:
  "map coord_z (emitted test s zi us) = map (\<lambda>k. real k * zi) [0..<length us]"
  by (simp add: emitted_def comp_def)

lemma span_scaled:
  assumes "vs \<noteq> []" "0 \<le> s"
  shows "span (map (\<lambda>v. v * s) vs) = span vs * s"
proof -
  have m: "mono (\<lambda>v::real. v * s)" using assms(2) by (simp add: mono_def mult_right_mono)
  have ne: "set vs \<noteq> {}" using assms(1) by simp
  have "Max ((\<lambda>v. v * s) ` set vs) = Max (set vs) * s"
    using mono_Max_commute [OF m _ ne] by simp
  moreover have "Min ((\<lambda>v. v * s) ` set vs) = Min (set vs) * s"
    using mono_Min_commute [OF m _ ne] by simp
  ultimately show ?thesis by (simp add: span_def left_diff_distrib)
qed

lemma map_fst_unscaled: "map fst (unscaled n t) = xs_of n t"
  by (simp add: unscaled_def xs_of_def comp_def)

lemma map_snd_unscaled: "map snd (unscaled n t) = ys_of n t"
  by (simp add: unscaled_def ys_of_def comp_def)

lemma max_dimension_of_emitted:
  assumes "0 < n" "0 \<le> s"
  shows "max_dimension_of (emitted test s zi (unscaled n t)) = Fin (unscaled_extent n t * s)"
proof -
  have nx: "xs_of n t \<noteq> []" and ny: "ys_of n t \<noteq> []"
    using py_range_nonempty [OF assms(1)] by (simp_all add: xs_of_def ys_of_def)
  have ne: "emitted test s zi (unscaled n t) \<noteq> []"
    using assms(1) by (simp add: length_0_conv [symmetric] del: length_0_conv)
  have "max_dimension_of (emitted test s zi (unscaled n t)) =
          Fin (max (span (map (\<lambda>v. v * s) (xs_of n t))) (span (map (\<lambda>v. v * s) (ys_of n t))))"
    by (rule max_dimension_of_Fin [OF ne])
       (simp_all only: map_coord_x_emitted map_coord_y_emitted map_fst_unscaled map_snd_unscaled)
  also have "\<dots> = Fin (max (span (xs_of n t) * s) (span (ys_of n t) * s))"
    by (simp only: span_scaled [OF nx assms(2)] span_scaled [OF ny assms(2)])
  also have "\<dots> = Fin (unscaled_extent n t * s)"
    using assms(2) by (simp add: unscaled_extent_def max_mult_distrib_right)
  finally show ?thesis .
qed

lemma generate_returns:
  assumes "2 \<le> n" "t \<noteq> 0" "\<bar>t\<bar> \<le> 255"
  shows "generate_fibonacci_points argv n scale t h =
           Inr (emitted (''test'' \<in> set argv) (scale / unscaled_extent n t) (h / of_int n)
                  (unscaled n t))"
proof -
  have "0 < unscaled_extent n t" using assms(1,2) by (rule unscaled_extent_pos)
  then show ?thesis
    using assms(1) not_overflows_bounded [OF assms(3)] by (simp add: generate_regular)
qed

lemma generate_Inr_emitted:
  assumes "0 < n" "generate_fibonacci_points argv n scale t h = Inr points"
  shows "\<not> overflows n t \<and> 0 < unscaled_extent n t \<and>
         points = emitted (''test'' \<in> set argv) (scale / unscaled_extent n t) (h / of_int n)
                    (unscaled n t)"
proof -
  have o: "\<not> overflows n t" using assms by (auto simp: generate_overflow)
  show ?thesis
  proof (cases "unscaled_extent n t = 0")
    case True
    with assms o show ?thesis by (simp add: generate_degenerate)
  next
    case False
    moreover have "0 \<le> unscaled_extent n t" using assms(1) by (rule unscaled_extent_nonneg)
    ultimately show ?thesis using assms o by (simp add: generate_regular)
  qed
qed


lemma nth_emitted_z:
  "k < length us \<Longrightarrow> coord_z (emitted test s zi us ! k) = real k * zi"
  by (simp add: emitted_def)

lemma sorted_emitted_z:
  assumes "0 \<le> zi"
  shows "sorted (map coord_z (emitted test s zi us))"
  unfolding map_coord_z_emitted sorted_iff_nth_mono
  using assms by (simp add: mult_right_mono)


lemma foldl_min_Min: "foldl min (a::real) vs = Min (set (a # vs))"
proof -
  have "foldl min a vs = fold min vs a" by (simp add: foldl_conv_fold min.commute)
  then show ?thesis by (simp only: Min.set_eq_fold)
qed

lemma foldl_max_Max: "foldl max (a::real) vs = Max (set (a # vs))"
proof -
  have "foldl max a vs = fold max vs a" by (simp add: foldl_conv_fold max.commute)
  then show ?thesis by (simp only: Max.set_eq_fold)
qed

lemma Min_ramp:
  assumes "0 < m" "0 \<le> zi"
  shows "Min (set (map (\<lambda>k. real k * zi) [0..<m])) = 0"
proof (rule Min_eqI)
  show "finite (set (map (\<lambda>k. real k * zi) [0..<m]))" by simp
  show "0 \<le> y" if "y \<in> set (map (\<lambda>k. real k * zi) [0..<m])" for y
    using that assms(2) by auto
  show "0 \<in> set (map (\<lambda>k. real k * zi) [0..<m])"
    using assms(1) by (auto intro: image_eqI [where x = 0])
qed

lemma Max_ramp:
  assumes "0 < m" "0 \<le> zi"
  shows "Max (set (map (\<lambda>k. real k * zi) [0..<m])) = real (m - 1) * zi"
proof (rule Max_eqI)
  show "finite (set (map (\<lambda>k. real k * zi) [0..<m]))" by simp
  show "y \<le> real (m - 1) * zi" if "y \<in> set (map (\<lambda>k. real k * zi) [0..<m])" for y
  proof -
    from that obtain k where k: "k < m" "y = real k * zi" by auto
    then have "real k \<le> real (m - 1)" by simp
    then show ?thesis using assms(2) k(2) by (simp add: mult_right_mono)
  qed
  show "real (m - 1) * zi \<in> set (map (\<lambda>k. real k * zi) [0..<m])"
    using assms(1) by (auto intro: image_eqI [where x = "m - 1"])
qed

lemma z_range_emitted:
  assumes "us \<noteq> []" "0 \<le> zi"
  shows "Min (set (map coord_z (emitted test s zi us))) = 0"
    and "Max (set (map coord_z (emitted test s zi us))) = real (length us - 1) * zi"
    and "z_range (emitted test s zi us) = real (length us - 1) * zi"
proof -
  have m: "0 < length us" using assms(1) by simp
  show a: "Min (set (map coord_z (emitted test s zi us))) = 0"
    unfolding map_coord_z_emitted by (rule Min_ramp [OF m assms(2)])
  show b: "Max (set (map coord_z (emitted test s zi us))) = real (length us - 1) * zi"
    unfolding map_coord_z_emitted by (rule Max_ramp [OF m assms(2)])
  show "z_range (emitted test s zi us) = real (length us - 1) * zi"
    by (simp only: z_range_def a b diff_zero)
qed

lemma last_step:
  assumes "0 < n"
  shows "real (nat n - 1) * (h / of_int n) = h - h / of_int n"
proof -
  have "real (nat n - 1) = of_int n - 1" using assms by (simp add: of_nat_diff)
  then show ?thesis using assms by (simp add: left_diff_distrib diff_divide_distrib)
qed

lemma max_dimension_of_generated:
  assumes "generate_fibonacci_points argv n scale t h = Inr points"
  shows "\<exists>m. max_dimension_of points = Fin m"
proof -
  consider "n = 0" | "n < 0" | "0 < n" by linarith
  then show ?thesis
  proof cases
    case 1
    with assms show ?thesis by (simp add: generate_zero)
  next
    case 2
    with assms have "points = []" by (simp add: generate_negative)
    then show ?thesis by (simp add: max_dimension_of_def get_bounding_box_def py_max_Fin)
  next
    case 3
    from generate_Inr_emitted [OF 3 assms]
    have p: "points = emitted (''test'' \<in> set argv) (scale / unscaled_extent n t)
                        (h / of_int n) (unscaled n t)"
      by simp
    have ne: "points \<noteq> []"
      using 3 by (simp add: p length_0_conv [symmetric] del: length_0_conv)
    show ?thesis
      using max_dimension_of_Fin [OF ne] map_coord_x_emitted map_coord_y_emitted
      unfolding p by blast
  qed
qed

lemma check_case_generated:
  assumes "generate_fibonacci_points argv n scale t h = Inr points"
    and "max_dimension_of points = Fin m"
  shows "check_case argv (n, scale, t, h) =
           (if scale * (1 / 100) < \<bar>m - scale\<bar>
            then Inr (Some (case get_bounding_box points of
                              (min_x, max_x, min_y, max_y) \<Rightarrow>
                                Dimension_failed scale t h (Fin m)
                                  (py_sub max_x min_x) (py_sub max_y min_y)))
            else if h > 0 then
              (if points = [] then Inl ValueError
               else if \<bar>z_range points - h\<bar> > scale * (1 / 100)
                    then Inr (Some (Height_failed h (z_range points)
                                      (Min (set (map coord_z points)))
                                      (Max (set (map coord_z points)))))
                    else Inr None)
            else Inr None)"
proof -
  obtain a b c d where bb: "get_bounding_box points = (a, b, c, d)"
    by (cases "get_bounding_box points") auto
  have md: "py_max (py_sub b a) (py_sub d c) = Fin m"
    using assms(2) by (simp add: max_dimension_of_def bb)
  show ?thesis
  proof (cases points)
    case Nil
    have bb': "get_bounding_box [] = (a, b, c, d)" using bb by (simp only: Nil)
    show ?thesis by (simp add: assms(1) Nil bb' md Let_def)
  next
    case (Cons p ps)
    have mn: "foldl min (coord_z p) (map coord_z ps) = Min (set (map coord_z points))"
      by (simp only: foldl_min_Min Cons list.map)
    have mx: "foldl max (coord_z p) (map coord_z ps) = Max (set (map coord_z points))"
      by (simp only: foldl_max_Max Cons list.map)
    have "check_case argv (n, scale, t, h) =
           (if scale * (1 / 100) < \<bar>m - scale\<bar>
            then Inr (Some (Dimension_failed scale t h (Fin m) (py_sub b a) (py_sub d c)))
            else if h > 0 then
              (if \<bar>(foldl max (coord_z p) (map coord_z ps) - foldl min (coord_z p) (map coord_z ps)) - h\<bar>
                    > scale * (1 / 100)
               then Inr (Some (Height_failed h
                      (foldl max (coord_z p) (map coord_z ps) - foldl min (coord_z p) (map coord_z ps))
                      (foldl min (coord_z p) (map coord_z ps))
                      (foldl max (coord_z p) (map coord_z ps))))
               else Inr None)
            else Inr None)"
      using bb by (simp add: assms(1) Cons md Let_def)
    then show ?thesis
      unfolding mn mx z_range_def using bb by (simp add: Cons)
  qed
qed

lemma check_case_raises:
  "generate_fibonacci_points argv n scale t h = Inl e \<Longrightarrow>
     check_case argv (n, scale, t, h) = Inl e"
  by simp

lemma check_case_None_iff:
  "check_case argv c = Inr None \<longleftrightarrow> case_within_tolerance argv c"
proof -
  obtain n scale t h where c: "c = (n, scale, t, h)" by (cases c) auto
  show ?thesis
  proof (cases "generate_fibonacci_points argv n scale t h")
    case (Inl e)
    then show ?thesis
      by (simp only: c check_case_raises [OF Inl] case_within_tolerance_def) simp
  next
    case (Inr points)
    from max_dimension_of_generated [OF Inr] obtain m
      where m: "max_dimension_of points = Fin m" by blast
    show ?thesis
      unfolding c check_case_generated [OF Inr m]
      by (auto simp: case_within_tolerance_def Inr m)
  qed
qed

lemma run_test_cases_True_iff:
  "(\<exists>out. run_test_cases argv cs = Inr (True, out)) \<longleftrightarrow>
     (\<forall>c \<in> set cs. check_case argv c = Inr None)"
proof (induction cs)
  case Nil
  show ?case by simp
next
  case (Cons c cs)
  show ?case
  proof (cases "check_case argv c")
    case (Inl e)
    then show ?thesis by simp
  next
    case (Inr r)
    then show ?thesis using Cons.IH by (cases r) simp_all
  qed
qed

lemma run_test_cases_all_pass:
  "\<forall>c \<in> set cs. check_case argv c = Inr None \<Longrightarrow>
     run_test_cases argv cs = Inr (True, [All_passed])"
  by (induction cs) simp_all

lemma run_test_cases_first_failure:
  "\<forall>c \<in> set pre. check_case argv c = Inr None \<Longrightarrow> check_case argv c = Inr (Some r) \<Longrightarrow>
     run_test_cases argv (pre @ c # post) = Inr (False, [r])"
  by (induction pre) simp_all

lemma max_dimension_of_generated_scale:
  assumes "0 < n" "0 < scale"
    and "generate_fibonacci_points argv n scale t h = Inr points"
  shows "max_dimension_of points = Fin scale"
proof -
  from generate_Inr_emitted [OF assms(1,3)]
  have d: "0 < unscaled_extent n t"
    and p: "points = emitted (''test'' \<in> set argv) (scale / unscaled_extent n t)
                       (h / of_int n) (unscaled n t)"
    by simp_all
  have s: "0 \<le> scale / unscaled_extent n t" using d assms(2) by simp
  show ?thesis unfolding p using d by (simp add: max_dimension_of_emitted [OF assms(1) s])
qed

lemma check_case_regular:
  assumes "2 \<le> n" "t \<noteq> 0" "0 < scale" "0 \<le> h" "\<bar>t\<bar> \<le> 255"
  shows "check_case argv (n, scale, t, h) =
           Inr (if 0 < h \<and> scale * (1 / 100) < h / of_int n
                then Some (Height_failed h (h - h / of_int n) 0 (h - h / of_int n))
                else None)"
proof -
  define points where "points = emitted (''test'' \<in> set argv) (scale / unscaled_extent n t)
                                  (h / of_int n) (unscaled n t)"
  have n: "0 < n" using assms(1) by simp
  have g: "generate_fibonacci_points argv n scale t h = Inr points"
    unfolding points_def by (rule generate_returns [OF assms(1,2,5)])
  have m: "max_dimension_of points = Fin scale"
    using max_dimension_of_generated_scale [OF n assms(3) g] .
  have ne: "unscaled n t \<noteq> []"
    using n by (simp add: length_0_conv [symmetric] del: length_0_conv)
  have pne: "points \<noteq> []"
    using n by (simp add: points_def length_0_conv [symmetric] del: length_0_conv)
  have zi: "0 \<le> h / of_int n" using n assms(4) by simp
  have mn: "Min (set (map coord_z points)) = 0"
    unfolding points_def by (rule z_range_emitted(1) [OF ne zi])
  have mx: "Max (set (map coord_z points)) = h - h / of_int n"
    unfolding points_def
    by (simp only: z_range_emitted(2) [OF ne zi] length_unscaled last_step [OF n])
  have zr: "z_range points = h - h / of_int n"
    by (simp only: z_range_def mn mx diff_zero)
  have "h - h / of_int n - h = - (h / of_int n)" by simp
  then have ab: "\<bar>h - h / of_int n - h\<bar> = h / of_int n"
    using zi by (simp only: abs_minus_cancel abs_of_nonneg)
  show ?thesis
    unfolding check_case_generated [OF g m] zr mn mx ab
    using assms(3) pne by simp
qed

lemma test_cases_pass: "\<forall>c \<in> set test_cases. check_case argv c = Inr None"
  by (simp add: test_cases_def check_case_regular del: check_case.simps)

section \<open>Properties of the generator\<close>






text \<open>
  Claim C3 says that the generator returns exactly \<open>num_points\<close> points for every
  \<open>num_points \<ge> 0\<close>. With \<open>num_points = 1\<close> it returns nothing: the only unscaled
  point gives a bounding box of extent zero and line 118 raises.
\<close>

theorem generate_one_point_counterexample:
  "generate_fibonacci_points [''test''] 1 100 1 0 = Inl ZeroDivisionError"
  by (simp add: generate_degenerate not_overflows_one unscaled_extent_one)

text \<open>
  Claim C3, amended. For \<open>num_points \<ge> 0\<close> and any scale, turns and height: if the
  generator returns, the sequence has exactly \<open>num_points\<close> points; and it does return
  whenever \<open>num_points \<ge> 2\<close>, \<open>turns \<noteq> 0\<close> and \<open>turns\<close> is between \<open>-255\<close> and \<open>255\<close>.
\<close>

theorem length_is_num_points:
  assumes "0 \<le> num_points"
  shows "(\<forall>points. generate_fibonacci_points argv num_points scale turns height = Inr points \<longrightarrow>
            int (length points) = num_points) \<and>
         (2 \<le> num_points \<and> turns \<noteq> 0 \<and> \<bar>turns\<bar> \<le> 255 \<longrightarrow>
            (\<exists>points. generate_fibonacci_points argv num_points scale turns height = Inr points))"
proof (intro conjI allI impI)
  fix points
  assume g: "generate_fibonacci_points argv num_points scale turns height = Inr points"
  have "num_points \<noteq> 0" using g by (auto simp: generate_zero)
  then have n: "0 < num_points" using assms by simp
  from generate_Inr_emitted [OF n g] show "int (length points) = num_points"
    using n by simp
next
  assume "2 \<le> num_points \<and> turns \<noteq> 0 \<and> \<bar>turns\<bar> \<le> 255"
  then show "\<exists>points. generate_fibonacci_points argv num_points scale turns height = Inr points"
    by (simp add: generate_returns)
qed

theorem length_is_num_points_witness:
  "(0::int) \<le> 3 \<and> (2::int) \<le> 3 \<and> (1::real) \<noteq> 0 \<and> \<bar>1::real\<bar> \<le> 255 \<and>
   (\<exists>points. generate_fibonacci_points [''test''] 3 1 1 0 = Inr points \<and> int (length points) = 3)"
  using length_is_num_points [of 3 "[''test'']" 1 1 0] by auto

text \<open>
  Claim C4 says that every \<open>num_points \<le> 0\<close> gives the empty sequence without an
  error. For negative \<open>num_points\<close> the generator does return the empty sequence;
  for \<open>num_points = 0\<close> the division at line 90 raises \<open>ZeroDivisionError\<close>, although
  line 121 guards the same division for that very case.
\<close>

theorem zero_points_raises:
  "generate_fibonacci_points argv 0 scale turns height = Inl ZeroDivisionError \<and>
   (num_points < 0 \<longrightarrow> generate_fibonacci_points argv num_points scale turns height = Inr [])"
  by (simp add: generate_zero generate_negative)

theorem zero_points_raises_witness:
  "generate_fibonacci_points [''test''] 0 1 1 0 = Inl ZeroDivisionError \<and>
   (-3::int) < 0 \<and> generate_fibonacci_points [''test''] (-3) 1 1 0 = Inr []"
  using zero_points_raises [of "[''test'']" 1 1 0 "-3"] by simp

text \<open>
  Claim C5. For \<open>num_points = 1\<close> the unscaled extent \<open>max_dimension\<close> is zero, the
  division \<open>scale / max_dimension\<close> raises \<open>ZeroDivisionError\<close>, and the generator
  hands that error to its caller. This holds for every scale, turns and height.
\<close>

theorem single_point_divides_by_zero:
  "(\<exists>max_dimension. unscaled_max_dimension 1 turns = Inr max_dimension \<and>
      max_dimension = Fin 0 \<and>
      py_truediv (Fin scale) max_dimension = Inl ZeroDivisionError) \<and>
   generate_fibonacci_points argv 1 scale turns height = Inl ZeroDivisionError"
  by (simp add: unscaled_max_dimension_pos not_overflows_one unscaled_extent_one
        generate_degenerate)

theorem single_point_divides_by_zero_witness:
  "unscaled_max_dimension 1 2 = Inr (Fin 0) \<and>
   py_truediv (Fin 50) (Fin 0) = Inl ZeroDivisionError \<and>
   generate_fibonacci_points [''test''] 1 50 2 10 = Inl ZeroDivisionError"
  using single_point_divides_by_zero [of 2 50 "[''test'']" 10] by auto

text \<open>
  Claim C6. For \<open>num_points > 1\<close> and \<open>height \<ge> 0\<close>, the point at index \<open>i\<close> of the
  returned sequence has \<open>z = i * (height / num_points)\<close>; the last point therefore has
  \<open>z = height - height / num_points\<close>, one increment short of \<open>height\<close>.
\<close>

theorem z_ramp_stops_one_step_short:
  assumes "1 < num_points" "0 \<le> height"
    and "generate_fibonacci_points argv num_points scale turns height = Inr points"
  shows "(\<forall>i < length points. coord_z (points ! i) = real i * (height / of_int num_points)) \<and>
         coord_z (last points) = height - height / of_int num_points"
proof -
  have n: "0 < num_points" using assms(1) by simp
  from generate_Inr_emitted [OF n assms(3)]
  have p: "points = emitted (''test'' \<in> set argv) (scale / unscaled_extent num_points turns)
                       (height / of_int num_points) (unscaled num_points turns)"
    by simp
  have len: "length points = nat num_points" by (simp add: p)
  have nth: "\<forall>i < length points. coord_z (points ! i) = real i * (height / of_int num_points)"
    unfolding p by (simp add: nth_emitted_z)
  have ne: "points \<noteq> []" using len n by auto
  have "coord_z (last points) = real (nat num_points - 1) * (height / of_int num_points)"
    using nth len n by (simp add: last_conv_nth [OF ne])
  also have "real (nat num_points - 1) = of_int num_points - 1"
    using n by (simp add: of_nat_diff)
  also have "(of_int num_points - 1) * (height / of_int num_points) =
               height - height / of_int num_points"
    using n by (simp add: left_diff_distrib diff_divide_distrib)
  finally show ?thesis using nth by simp
qed

theorem z_ramp_stops_one_step_short_witness:
  "(1::int) < 4 \<and> (0::real) \<le> 8 \<and>
   (\<exists>points. generate_fibonacci_points [''test''] 4 1 1 8 = Inr points \<and>
      length points = 4 \<and> coord_z (points ! 3) = 6 \<and> coord_z (last points) = 6)"
proof -
  obtain points where g: "generate_fibonacci_points [''test''] 4 1 1 8 = Inr points"
    and len: "length points = 4"
    using generate_returns [of 4 1 "[''test'']" 1 8] by simp
  from z_ramp_stops_one_step_short [OF _ _ g] len show ?thesis using g by simp
qed

text \<open>
  Claim C7. For \<open>num_points > 1\<close> and \<open>height \<ge> 0\<close>, the z coordinates of the returned
  sequence never decrease from a point to the next one.
\<close>

theorem z_non_decreasing:
  assumes "1 < num_points" "0 \<le> height"
    and "generate_fibonacci_points argv num_points scale turns height = Inr points"
  shows "sorted (map coord_z points)"
proof -
  have n: "0 < num_points" using assms(1) by simp
  from generate_Inr_emitted [OF n assms(3)]
  have p: "points = emitted (''test'' \<in> set argv) (scale / unscaled_extent num_points turns)
                       (height / of_int num_points) (unscaled num_points turns)"
    by simp
  have "0 \<le> height / of_int num_points" using n assms(2) by simp
  then show ?thesis unfolding p by (rule sorted_emitted_z)
qed

theorem z_non_decreasing_witness:
  "(1::int) < 5 \<and> (0::real) \<le> 3 \<and>
   (\<exists>points. generate_fibonacci_points [] 5 2 1 3 = Inr points \<and> sorted (map coord_z points))"
proof -
  obtain points where g: "generate_fibonacci_points [] 5 2 1 3 = Inr points"
    using generate_returns [of 5 1 "[]" 2 3] by simp
  from z_non_decreasing [OF _ _ g] show ?thesis using g by simp
qed




text \<open>
  Claim C2 says that for \<open>num_points > 1\<close>, \<open>scale > 0\<close> and \<open>height > 0\<close> the vertical
  extent of the result is within one percent of \<open>height\<close>. The code gives
  \<open>height - height / num_points\<close>, which is that close only from a hundred points on:
  the ramp of lines 121 to 135 divides by the number of points and not by the number
  of steps between them. With ten points and a height of 100 the extent is 90.
\<close>

theorem z_range_one_step_short:
  assumes "2 \<le> num_points" "0 \<le> height"
  shows "(\<forall>points. generate_fibonacci_points argv num_points scale turns height = Inr points \<longrightarrow>
            z_range points = height - height / of_int num_points) \<and>
         (turns \<noteq> 0 \<and> \<bar>turns\<bar> \<le> 255 \<longrightarrow>
            (\<exists>points. generate_fibonacci_points argv num_points scale turns height = Inr points))"
proof (intro conjI allI impI)
  fix points
  assume g: "generate_fibonacci_points argv num_points scale turns height = Inr points"
  have n: "0 < num_points" using assms(1) by simp
  have ne: "unscaled num_points turns \<noteq> []"
    using n by (simp add: length_0_conv [symmetric] del: length_0_conv)
  have zi: "0 \<le> height / of_int num_points" using n assms(2) by simp
  from generate_Inr_emitted [OF n g]
  have p: "points = emitted (''test'' \<in> set argv) (scale / unscaled_extent num_points turns)
                       (height / of_int num_points) (unscaled num_points turns)"
    by simp
  show "z_range points = height - height / of_int num_points"
    unfolding p by (simp only: z_range_emitted(3) [OF ne zi] length_unscaled last_step [OF n])
next
  assume "turns \<noteq> 0 \<and> \<bar>turns\<bar> \<le> 255"
  then show "\<exists>points. generate_fibonacci_points argv num_points scale turns height = Inr points"
    using assms(1) by (simp add: generate_returns)
qed

theorem z_range_one_step_short_witness:
  "(2::int) \<le> 10 \<and> (0::real) \<le> 100 \<and> (1::real) \<noteq> 0 \<and> \<bar>1::real\<bar> \<le> 255 \<and>
   (\<exists>points. generate_fibonacci_points [''test''] 10 100 1 100 = Inr points \<and>
      z_range points = 90 \<and> \<not> \<bar>z_range points - 100\<bar> \<le> 100 * (1 / 100))"
  using z_range_one_step_short [of 10 100 "[''test'']" 100 1] by auto

section \<open>Properties of the verification routine\<close>

text \<open>
  Claim C8. \<open>test_spiral_dimensions\<close> does not raise and returns \<open>True\<close>, and every row
  of its table is within tolerance; the loop returns \<open>True\<close> exactly when every row of
  the table it runs over is within tolerance, whatever the table; and it returns
  \<open>False\<close> with the diagnostic of the first row that fails, without looking at the
  rows behind it.
\<close>

theorem test_spiral_dimensions_verdict:
  "test_spiral_dimensions argv = Inr (True, [All_passed]) \<and>
   (\<forall>c \<in> set test_cases. case_within_tolerance argv c) \<and>
   (\<forall>cs. (\<exists>out. run_test_cases argv cs = Inr (True, out)) =
            (\<forall>c \<in> set cs. case_within_tolerance argv c)) \<and>
   (\<forall>pre c post r.
       (\<forall>c' \<in> set pre. case_within_tolerance argv c') \<and> check_case argv c = Inr (Some r) \<longrightarrow>
       run_test_cases argv (pre @ c # post) = Inr (False, [r]))"
proof (intro conjI allI impI)
  show "test_spiral_dimensions argv = Inr (True, [All_passed])"
    unfolding test_spiral_dimensions_def
    by (rule run_test_cases_all_pass [OF test_cases_pass])
  show "\<forall>c \<in> set test_cases. case_within_tolerance argv c"
    using test_cases_pass [of argv] by (simp only: check_case_None_iff)
  show "(\<exists>out. run_test_cases argv cs = Inr (True, out)) =
          (\<forall>c \<in> set cs. case_within_tolerance argv c)" for cs
    by (simp only: run_test_cases_True_iff check_case_None_iff)
  show "run_test_cases argv (pre @ c # post) = Inr (False, [r])"
    if "(\<forall>c' \<in> set pre. case_within_tolerance argv c') \<and> check_case argv c = Inr (Some r)"
    for pre c post r
  proof -
    from that have "\<forall>c' \<in> set pre. check_case argv c' = Inr None"
      and "check_case argv c = Inr (Some r)"
      by (simp_all add: check_case_None_iff del: check_case.simps)
    then show ?thesis by (rule run_test_cases_first_failure)
  qed
qed

theorem test_spiral_dimensions_verdict_witness:
  "test_spiral_dimensions [''Fib.py'', ''test''] = Inr (True, [All_passed]) \<and>
   case_within_tolerance [''Fib.py'', ''test''] (100, 100, 1, 0) \<and>
   check_case [''Fib.py'', ''test''] (10, 100, 1, 100) = Inr (Some (Height_failed 100 90 0 90)) \<and>
   run_test_cases [''Fib.py'', ''test''] [(100, 100, 1, 0), (10, 100, 1, 100), (1, 1, 1, 0)] =
     Inr (False, [Height_failed 100 90 0 90])"
proof -
  let ?argv = "[''Fib.py'', ''test'']"
  have a: "case_within_tolerance ?argv (100, 100, 1, 0)"
    by (simp add: check_case_None_iff [symmetric] check_case_regular del: check_case.simps)
  have b: "check_case ?argv (10, 100, 1, 100) = Inr (Some (Height_failed 100 90 0 90))"
    by (simp add: check_case_regular del: check_case.simps)
  from test_spiral_dimensions_verdict [of ?argv]
  have t: "test_spiral_dimensions ?argv = Inr (True, [All_passed])"
    and f: "\<And>pre c post r.
       (\<forall>c' \<in> set pre. case_within_tolerance ?argv c') \<and> check_case ?argv c = Inr (Some r) \<Longrightarrow>
       run_test_cases ?argv (pre @ c # post) = Inr (False, [r])"
    by blast+
  have "run_test_cases ?argv ([(100, 100, 1, 0)] @ (10, 100, 1, 100) # [(1, 1, 1, 0)]) =
          Inr (False, [Height_failed 100 90 0 90])"
    by (rule f) (simp add: a b del: check_case.simps)
  then show ?thesis using a b t by (simp del: check_case.simps run_test_cases.simps)
qed

end
